theory Spec2Isabelle
  imports Main "HOL-Library.Word" "HOL-Library.AList"
begin

section \<open>The RPC client of \<open>net/rpcclient.go\<close>\<close>

text \<open>
  The file multiplexes calls over one connection. Every call is a goroutine that
  runs \<open>callCmd\<close> or \<open>callCmdWithTimeout\<close>; the transport runs the inbound-message
  handler and the close callback registered by \<open>NewRpcClient\<close>. The model is a small-step
  one: each goroutine is a program counter with its local variables, the client is a
  record shared by all of them, and one step executes one atomic action of the code
  (a \<open>Lock\<close>, a channel operation, or a stretch of code that runs under the lock).
\<close>

subsection \<open>Data\<close>

type_synonym bytes = "8 word list"

text \<open>
  Modelled from the spec: the interface \<open>IMessage\<close> and the constructor
  \<open>NewRpcMessage\<close> are declared in another file of the package. The spec gives a frame
  a command code, a correlation sequence number and a body, which are what the methods
  \<open>Cmd()\<close>, \<open>RpcSeq()\<close> and \<open>Body()\<close> called here return. The byte layout of a frame
  belongs to the transport; the outbound queue of the model holds the frame that
  \<open>NewRpcMessage(cmd, seq, data)\<close> builds.
\<close>

record message =
  Cmd :: "32 word"
  RpcSeq :: "64 word"
  Body :: bytes

definition NewRpcMessage :: "32 word \<Rightarrow> 64 word \<Rightarrow> bytes \<Rightarrow> message" where
  "NewRpcMessage cmd sq data = \<lparr>Cmd = cmd, RpcSeq = sq, Body = data\<rparr>"

text \<open>
  The command codes \<open>CmdPing\<close>, \<open>CmdRpcMethod\<close> and \<open>CmdRpcError\<close> are constants declared
  in another file of the package; they are a parameter of the model.
\<close>

record codes =
  CmdPing :: "32 word"
  CmdRpcMethod :: "32 word"
  CmdRpcError :: "32 word"

text \<open>
  The errors of the file: three package-level values and the errors made by
  \<open>errors.New(string(msg.Body()))\<close>, whose message is the byte string of the body.
\<close>

datatype error =
    ErrRpcClientIsDisconnected
  | ErrRpcCallTimeout
  | ErrRpcCallClientError
  | ErrorsNew bytes

text \<open>\<open>type RpcMessage struct { msg IMessage; err error }\<close>\<close>

record RpcMessage =
  msg :: message
  err :: "error option"

text \<open>
  \<open>type rpcsession struct { seq int64; done chan *RpcMessage }\<close>. The channel is a
  reference: \<open>done_ch\<close> is its address in the heap of channels of the client.
\<close>

record rpcsession =
  seq :: "64 word"
  done_ch :: nat

text \<open>A channel of \<open>*RpcMessage\<close>: the values buffered in it and whether it is closed.\<close>

record chan =
  buf :: "RpcMessage list"
  closed :: bool

text \<open>
  \<open>RpcClient\<close> with the fields of the embedded \<open>TcpClient\<close> that the file uses; the
  declaration of \<open>TcpClient\<close> is in another file of the package, and the types are those
  of the uses here: the mutex (\<open>mu\<close>, the goroutine that holds it), \<open>running\<close>, \<open>sendSeq\<close>
  (the operand of \<open>atomic.AddInt64\<close>) and the outbound queue \<open>chSend\<close>, a buffered channel,
  with its capacity. \<open>sessionMap\<close> is the Go map as an association list (the close
  callback iterates over it); \<open>heap\<close> holds the result channels made so far.
\<close>

record client =
  mu :: "nat option"
  running :: bool
  sendSeq :: "64 word"
  chSend :: "message list"
  chSendCap :: nat
  sessionMap :: "(64 word \<times> rpcsession) list"
  heap :: "chan list"

text \<open>What a step of a goroutine does: it completes, it cannot run yet, or it panics.\<close>

datatype 'a outcome = Done 'a | Blocked | Panicked

subsection \<open>Channels\<close>

text \<open>\<open>make(chan *RpcMessage, 1)\<close>: every result channel has capacity 1.\<close>

definition done_cap :: nat where
  "done_cap = 1"

definition make_chan :: chan where
  "make_chan = \<lparr>buf = [], closed = False\<rparr>"

text \<open>
  Go's channel operations. A send on a closed channel panics and a send on a full one
  blocks; a receive takes the oldest buffered value (\<open>ok = true\<close>), reports a closed and
  empty channel (\<open>ok = false\<close>, here \<open>None\<close>) and blocks otherwise; closing a closed
  channel panics.
\<close>

definition chan_send :: "RpcMessage \<Rightarrow> chan \<Rightarrow> chan outcome" where
  "chan_send v ch =
     (if closed ch then Panicked
      else if length (buf ch) < done_cap then Done (ch\<lparr>buf := buf ch @ [v]\<rparr>)
      else Blocked)"

definition chan_recv :: "chan \<Rightarrow> (RpcMessage option \<times> chan) outcome" where
  "chan_recv ch =
     (case buf ch of
        v # vs \<Rightarrow> Done (Some v, ch\<lparr>buf := vs\<rparr>)
      | [] \<Rightarrow> if closed ch then Done (None, ch) else Blocked)"

definition chan_close :: "chan \<Rightarrow> chan outcome" where
  "chan_close ch = (if closed ch then Panicked else Done (ch\<lparr>closed := True\<rparr>))"

text \<open>
  The same operations through a reference. An address with no channel behind it behaves
  as Go's nil channel: sending and receiving block, closing panics.
\<close>

definition heap_send :: "nat \<Rightarrow> RpcMessage \<Rightarrow> chan list \<Rightarrow> chan list outcome" where
  "heap_send a v h =
     (if a < length h then
        (case chan_send v (h ! a) of
           Done ch \<Rightarrow> Done (h[a := ch])
         | Blocked \<Rightarrow> Blocked
         | Panicked \<Rightarrow> Panicked)
      else Blocked)"

definition heap_recv :: "nat \<Rightarrow> chan list \<Rightarrow> (RpcMessage option \<times> chan list) outcome" where
  "heap_recv a h =
     (if a < length h then
        (case chan_recv (h ! a) of
           Done (r, ch) \<Rightarrow> Done (r, h[a := ch])
         | Blocked \<Rightarrow> Blocked
         | Panicked \<Rightarrow> Panicked)
      else Blocked)"

definition heap_close :: "nat \<Rightarrow> chan list \<Rightarrow> chan list outcome" where
  "heap_close a h =
     (if a < length h then
        (case chan_close (h ! a) of
           Done ch \<Rightarrow> Done (h[a := ch])
         | Blocked \<Rightarrow> Blocked
         | Panicked \<Rightarrow> Panicked)
      else Panicked)"

subsection \<open>\<open>removeSession\<close>\<close>

text \<open>
  Lines 33 to 36, the code between \<open>Lock\<close> and \<open>Unlock\<close>: delete the key, and replace an
  empty map by a new empty map.
\<close>

definition removeSession :: "64 word \<Rightarrow> client \<Rightarrow> client" where
  "removeSession sq c =
     (let m = AList.delete sq (sessionMap c)
      in c\<lparr>sessionMap := (if length m = 0 then [] else m)\<rparr>)"

subsection \<open>The payload of \<open>Call\<close>\<close>

text \<open>
  \<open>copy(dst[off:], src)\<close> copies \<open>min (len(dst) - off) (len(src))\<close> bytes.
\<close>

definition copy_at :: "bytes \<Rightarrow> nat \<Rightarrow> bytes \<Rightarrow> bytes" where
  "copy_at dst off src =
     (let n = min (length dst - off) (length src)
      in take off dst @ take n src @ drop (off + n) dst)"

text \<open>
  Lines 143 to 145 of \<open>Call\<close>: grow the marshalled request by \<open>len(method) + 1\<close> zero
  bytes, copy the name over them, and store \<open>byte(len(method))\<close> in the last byte. The
  conversion to \<open>byte\<close> keeps the low 8 bits.
\<close>

definition method_payload :: "bytes \<Rightarrow> bytes \<Rightarrow> bytes" where
  "method_payload data method =
     (let d1 = data @ replicate (length method + 1) 0;
          d2 = copy_at d1 (length d1 - length method - 1) method
      in d2[length d2 - 1 := (of_nat (length method) :: 8 word)])"

subsection \<open>Goroutines\<close>

text \<open>
  \<open>Plain\<close> is \<open>callCmd\<close>, \<open>Timed\<close> is \<open>callCmdWithTimeout\<close>. The length of the timeout is
  not modelled: in a \<open>select\<close> with a \<open>time.After\<close> case the scheduler picks either the
  communication, when it can proceed, or the timer.
\<close>

datatype variant = Plain | Timed

datatype pick = PickComm | PickTimer

text \<open>What \<open>callCmd\<close> returns: \<open>([]byte, error)\<close>, with \<open>None\<close> for \<open>nil\<close>.\<close>

type_synonym result = "bytes option \<times> error option"

text \<open>
  The program points. A call: \<open>CallLock\<close> (line 43 or 68, before \<open>Lock\<close>), \<open>CallCheck\<close>
  (line 44 or 69, the test of \<open>running\<close>), \<open>CallSend\<close> (line 50, or the \<open>select\<close> of line
  75), \<open>CallRegister\<close> (line 51 or 77 and the \<open>Unlock\<close> of line 56 or 86), \<open>CallWait\<close>
  (line 58, or the \<open>select\<close> of line 88), \<open>CallFallThrough\<close> (line 97), then the deferred
  \<open>removeSession\<close> (\<open>RemoveLock\<close>, line 32, and \<open>RemoveBody\<close>, lines 33 to 37) and
  \<open>Returned\<close>. The inbound-message handler of lines 186 to 217: \<open>OnMessage\<close>,
  \<open>RouterLookup\<close> (lines 191 and 192, or 200 and 201), \<open>RouterDeliver\<close> (line 194 or
  203), \<open>RouterDone\<close>. The close callback of lines 177 to 184: \<open>OnClose\<close>, \<open>CloseBody\<close>,
  \<open>CloseDone\<close>.
\<close>

datatype thread =
    CallLock variant "32 word" bytes
  | CallCheck variant "32 word" bytes
  | CallSend variant rpcsession message
  | CallRegister variant rpcsession
  | CallWait variant rpcsession
  | CallFallThrough rpcsession
  | RemoveLock rpcsession result
  | RemoveBody rpcsession result
  | Returned result
  | OnMessage message
  | RouterLookup message
  | RouterDeliver rpcsession RpcMessage
  | RouterDone
  | OnClose
  | CloseBody
  | CloseDone

text \<open>Lines 180 to 182: close the channel of every session in the map.\<close>

fun close_sessions :: "rpcsession list \<Rightarrow> chan list \<Rightarrow> chan list outcome" where
  "close_sessions [] h = Done h"
| "close_sessions (s # ss) h =
     (case heap_close (done_ch s) h of
        Done h' \<Rightarrow> close_sessions ss h'
      | Blocked \<Rightarrow> Blocked
      | Panicked \<Rightarrow> Panicked)"

text \<open>Lines 58 to 62 and 89 to 93: what the call returns for what it received.\<close>

definition received :: "RpcMessage option \<Rightarrow> result" where
  "received r =
     (case r of
        None \<Rightarrow> (None, Some ErrRpcClientIsDisconnected)
      | Some m \<Rightarrow> (Some (Body (msg m)), err m))"

text \<open>
  The receive of line 58 or 89 on the channel of the session; the deferred
  \<open>removeSession\<close> runs next.
\<close>

definition recv_result :: "rpcsession \<Rightarrow> client \<Rightarrow> (thread \<times> client) outcome" where
  "recv_result s c =
     (case heap_recv (done_ch s) (heap c) of
        Done (r, h) \<Rightarrow> Done (RemoveLock s (received r), c\<lparr>heap := h\<rparr>)
      | Blocked \<Rightarrow> Blocked
      | Panicked \<Rightarrow> Panicked)"

text \<open>The send of line 50 or 76 on the outbound queue.\<close>

definition send_frame :: "variant \<Rightarrow> rpcsession \<Rightarrow> message \<Rightarrow> client \<Rightarrow> (thread \<times> client) outcome" where
  "send_frame v s m c =
     (if length (chSend c) < chSendCap c
      then Done (CallRegister v s, c\<lparr>chSend := chSend c @ [m]\<rparr>)
      else Blocked)"

text \<open>
  Lines 194 and 203: the envelope the handler sends for a frame whose session it found.
\<close>

definition envelope :: "codes \<Rightarrow> message \<Rightarrow> RpcMessage" where
  "envelope K m =
     (if Cmd m = CmdRpcMethod K then \<lparr>msg = m, err = None\<rparr>
      else \<lparr>msg = m, err = Some (ErrorsNew (Body m))\<rparr>)"

text \<open>
  One step of goroutine \<open>i\<close>. \<open>Lock\<close> waits until the mutex is free; a goroutine that has
  finished takes no step. In the handler, any command other than the three codes goes to
  the handlers of the engine, which are not part of this file.
\<close>

fun step :: "codes \<Rightarrow> nat \<Rightarrow> pick \<Rightarrow> thread \<Rightarrow> client \<Rightarrow> (thread \<times> client) outcome" where
  "step K i p (CallLock v cmd data) c =
     (if mu c = None then Done (CallCheck v cmd data, c\<lparr>mu := Some i\<rparr>) else Blocked)"
| "step K i p (CallCheck v cmd data) c =
     (if running c then
        (let sq = sendSeq c + 1;
             s = \<lparr>seq = sq, done_ch = length (heap c)\<rparr>
         in Done (CallSend v s (NewRpcMessage cmd sq data),
                  c\<lparr>sendSeq := sq, heap := heap c @ [make_chan]\<rparr>))
      else Done (Returned (None, Some ErrRpcClientIsDisconnected), c\<lparr>mu := None\<rparr>))"
| "step K i p (CallSend v s m) c =
     (case v of
        Plain \<Rightarrow> send_frame v s m c
      | Timed \<Rightarrow>
          (case p of
             PickComm \<Rightarrow> send_frame v s m c
           | PickTimer \<Rightarrow> Done (Returned (None, Some ErrRpcCallTimeout), c\<lparr>mu := None\<rparr>)))"
| "step K i p (CallRegister v s) c =
     Done (CallWait v s, c\<lparr>sessionMap := AList.update (seq s) s (sessionMap c), mu := None\<rparr>)"
| "step K i p (CallWait v s) c =
     (case v of
        Plain \<Rightarrow> recv_result s c
      | Timed \<Rightarrow>
          (case p of
             PickComm \<Rightarrow> recv_result s c
           | PickTimer \<Rightarrow> Done (RemoveLock s (None, Some ErrRpcCallTimeout), c)))"
| "step K i p (CallFallThrough s) c =
     Done (RemoveLock s (None, Some ErrRpcCallClientError), c)"
| "step K i p (RemoveLock s r) c =
     (if mu c = None then Done (RemoveBody s r, c\<lparr>mu := Some i\<rparr>) else Blocked)"
| "step K i p (RemoveBody s r) c =
     Done (Returned r, (removeSession (seq s) c)\<lparr>mu := None\<rparr>)"
| "step K i p (Returned r) c = Blocked"
| "step K i p (OnMessage m) c =
     (if Cmd m = CmdPing K then Done (RouterDone, c)
      else if Cmd m = CmdRpcMethod K \<or> Cmd m = CmdRpcError K then
        (if mu c = None then Done (RouterLookup m, c\<lparr>mu := Some i\<rparr>) else Blocked)
      else Done (RouterDone, c))"
| "step K i p (RouterLookup m) c =
     (case map_of (sessionMap c) (RpcSeq m) of
        Some s \<Rightarrow> Done (RouterDeliver s (envelope K m), c\<lparr>mu := None\<rparr>)
      | None \<Rightarrow> Done (RouterDone, c\<lparr>mu := None\<rparr>))"
| "step K i p (RouterDeliver s e) c =
     (case heap_send (done_ch s) e (heap c) of
        Done h \<Rightarrow> Done (RouterDone, c\<lparr>heap := h\<rparr>)
      | Blocked \<Rightarrow> Blocked
      | Panicked \<Rightarrow> Panicked)"
| "step K i p RouterDone c = Blocked"
| "step K i p OnClose c =
     (if mu c = None then Done (CloseBody, c\<lparr>mu := Some i\<rparr>) else Blocked)"
| "step K i p CloseBody c =
     (case close_sessions (map snd (sessionMap c)) (heap c) of
        Done h \<Rightarrow> Done (CloseDone, c\<lparr>heap := h, sessionMap := [], mu := None\<rparr>)
      | Blocked \<Rightarrow> Blocked
      | Panicked \<Rightarrow> Panicked)"
| "step K i p CloseDone c = Blocked"

subsection \<open>The public calls\<close>

text \<open>
  \<open>Call\<close>, lines 139 to 146: marshal the request with the codec (a parameter: \<open>ICodec\<close> is
  an interface), return its error if there is one, else enter \<open>callCmdWithTimeout\<close> with
  the command \<open>CmdRpcMethod\<close> and the payload that carries the method name.
  \<open>CallCmd\<close> and \<open>CallCmdWithTimeout\<close>, lines 107 to 111 and 123 to 127, pass the
  marshalled request on as it is.
\<close>

definition Call :: "codes \<Rightarrow> ('req \<Rightarrow> error + bytes) \<Rightarrow> bytes \<Rightarrow> 'req \<Rightarrow> error + thread" where
  "Call K marshal method req =
     (case marshal req of
        Inl e \<Rightarrow> Inl e
      | Inr data \<Rightarrow> Inr (CallLock Timed (CmdRpcMethod K) (method_payload data method)))"

definition CallCmd :: "('req \<Rightarrow> error + bytes) \<Rightarrow> 32 word \<Rightarrow> 'req \<Rightarrow> error + thread" where
  "CallCmd marshal cmd req =
     (case marshal req of
        Inl e \<Rightarrow> Inl e
      | Inr data \<Rightarrow> Inr (CallLock Plain cmd data))"

definition CallCmdWithTimeout :: "('req \<Rightarrow> error + bytes) \<Rightarrow> 32 word \<Rightarrow> 'req \<Rightarrow> error + thread" where
  "CallCmdWithTimeout marshal cmd req =
     (case marshal req of
        Inl e \<Rightarrow> Inl e
      | Inr data \<Rightarrow> Inr (CallLock Timed cmd data))"

text \<open>
  Lines 112 to 118 (and 128 to 134, 147 to 153): an error of the call is returned as it
  is; otherwise the reply is unmarshalled when the caller gave a place for it.
\<close>

definition finish :: "(bytes option \<Rightarrow> error option) \<Rightarrow> bool \<Rightarrow> result \<Rightarrow> error option" where
  "finish unmarshal want_rsp r =
     (case snd r of
        Some e \<Rightarrow> Some e
      | None \<Rightarrow> if want_rsp then unmarshal (fst r) else None)"

subsection \<open>Programs of several goroutines\<close>

text \<open>
  A configuration is the client and the goroutines; an event names the goroutine that
  the scheduler runs next and the case it picks in a \<open>select\<close>. An event whose goroutine
  cannot run changes nothing. A panic ends the run.
\<close>

type_synonym config = "client \<times> thread list"

definition gstep :: "codes \<Rightarrow> nat \<times> pick \<Rightarrow> config \<Rightarrow> config outcome" where
  "gstep K ev cfg =
     (let i = fst ev; c = fst cfg; ts = snd cfg
      in if i < length ts then
           (case step K i (snd ev) (ts ! i) c of
              Done (t, c') \<Rightarrow> Done (c', ts[i := t])
            | Blocked \<Rightarrow> Done cfg
            | Panicked \<Rightarrow> Panicked)
         else Done cfg)"

fun run :: "codes \<Rightarrow> (nat \<times> pick) list \<Rightarrow> config \<Rightarrow> config outcome" where
  "run K [] cfg = Done cfg"
| "run K (ev # evs) cfg =
     (case gstep K ev cfg of
        Done cfg' \<Rightarrow> run K evs cfg'
      | Blocked \<Rightarrow> Blocked
      | Panicked \<Rightarrow> Panicked)"

subsection \<open>Predicates on configurations\<close>

text \<open>
  The program points between a \<open>Lock\<close> and its \<open>Unlock\<close>, and the discipline of the
  mutex: goroutine \<open>i\<close> is at such a point exactly when \<open>mu\<close> names it.
\<close>

fun holds :: "thread \<Rightarrow> bool" where
  "holds (CallCheck v cmd data) = True"
| "holds (CallSend v s m) = True"
| "holds (CallRegister v s) = True"
| "holds (RemoveBody s r) = True"
| "holds (RouterLookup m) = True"
| "holds CloseBody = True"
| "holds t = False"

definition lock_inv :: "config \<Rightarrow> bool" where
  "lock_inv cfg =
     ((\<forall>i<length (snd cfg). holds (snd cfg ! i) = (mu (fst cfg) = Some i))
      \<and> (case mu (fst cfg) of None \<Rightarrow> True | Some i \<Rightarrow> i < length (snd cfg)))"

text \<open>
  A configuration is clean when no goroutine is at line 97 or carries the error
  \<open>ErrRpcCallClientError\<close> as a result or in an envelope, and no buffered envelope
  carries it.
\<close>

fun clean_result :: "result \<Rightarrow> bool" where
  "clean_result (payload, e) = (e \<noteq> Some ErrRpcCallClientError)"

fun clean_thread :: "thread \<Rightarrow> bool" where
  "clean_thread (CallFallThrough s) = False"
| "clean_thread (RemoveLock s r) = clean_result r"
| "clean_thread (RemoveBody s r) = clean_result r"
| "clean_thread (Returned r) = clean_result r"
| "clean_thread (RouterDeliver s e) = (err e \<noteq> Some ErrRpcCallClientError)"
| "clean_thread t = True"

definition clean_heap :: "chan list \<Rightarrow> bool" where
  "clean_heap h = (\<forall>ch\<in>set h. \<forall>e\<in>set (buf ch). err e \<noteq> Some ErrRpcCallClientError)"

definition clean :: "config \<Rightarrow> bool" where
  "clean cfg = ((\<forall>t\<in>set (snd cfg). clean_thread t) \<and> clean_heap (heap (fst cfg)))"

text \<open>A bound on the number of steps a goroutine still takes.\<close>

fun steps_left :: "thread \<Rightarrow> nat" where
  "steps_left (CallLock v cmd data) = 7"
| "steps_left (CallCheck v cmd data) = 6"
| "steps_left (CallSend v s m) = 5"
| "steps_left (CallRegister v s) = 4"
| "steps_left (CallWait v s) = 3"
| "steps_left (CallFallThrough s) = 3"
| "steps_left (RemoveLock s r) = 2"
| "steps_left (RemoveBody s r) = 1"
| "steps_left (Returned r) = 0"
| "steps_left (OnMessage m) = 3"
| "steps_left (RouterLookup m) = 2"
| "steps_left (RouterDeliver s e) = 1"
| "steps_left RouterDone = 0"
| "steps_left OnClose = 2"
| "steps_left CloseBody = 1"
| "steps_left CloseDone = 0"

text \<open>
  The correlation ID a step obtained: the step from the test of \<open>running\<close> to the
  hand-off is the one that executes \<open>atomic.AddInt64(&client.sendSeq, 1)\<close>. \<open>ids\<close> lists
  the IDs obtained along a run, in the order of the run.
\<close>

fun allocated :: "thread \<Rightarrow> thread \<Rightarrow> 64 word option" where
  "allocated (CallCheck v cmd data) (CallSend v' s m) = Some (seq s)"
| "allocated t t' = None"

fun ids :: "codes \<Rightarrow> (nat \<times> pick) list \<Rightarrow> config \<Rightarrow> 64 word list" where
  "ids K [] cfg = []"
| "ids K (ev # evs) cfg =
     (case gstep K ev cfg of
        Done cfg' \<Rightarrow>
          (if fst ev < length (snd cfg)
           then (case allocated (snd cfg ! fst ev) (snd cfg' ! fst ev) of
                   Some a \<Rightarrow> [a]
                 | None \<Rightarrow> [])
           else []) @ ids K evs cfg'
      | Blocked \<Rightarrow> []
      | Panicked \<Rightarrow> [])"

subsection \<open>Values for the examples\<close>

definition codes0 :: codes where
  "codes0 = \<lparr>CmdPing = 1, CmdRpcMethod = 2, CmdRpcError = 3\<rparr>"

text \<open>A running client with one session, number 1, waiting on channel 0.\<close>

definition client0 :: client where
  "client0 = \<lparr>mu = None, running = True, sendSeq = 1, chSend = [], chSendCap = 4,
              sessionMap = [(1, \<lparr>seq = 1, done_ch = 0\<rparr>)], heap = [make_chan]\<rparr>"

text \<open>The session of \<open>client0\<close>, and a reply with the code \<open>CmdRpcError\<close> for it.\<close>

definition session1 :: rpcsession where
  "session1 = \<lparr>seq = 1, done_ch = 0\<rparr>"

definition boom :: message where
  "boom = \<lparr>Cmd = 3, RpcSeq = 1, Body = [98, 111, 111, 109]\<rparr>"

text \<open>\<open>client0\<close> with its counter two below the largest \<open>int64\<close>.\<close>

definition near_max :: client where
  "near_max = client0\<lparr>sendSeq := 0x7FFFFFFFFFFFFFFE\<rparr>"

section \<open>Properties\<close>

lemmas eval_defs = gstep_def client0_def codes0_def recv_result_def heap_recv_def chan_recv_def
  heap_send_def chan_send_def heap_close_def chan_close_def done_cap_def make_chan_def envelope_def
  received_def removeSession_def send_frame_def NewRpcMessage_def session1_def boom_def Let_def

subsection \<open>The payload of a named call\<close>

lemma drop_cons_replicate: "drop n (x # replicate n x) = [x]"
  by (induction n) simp_all

lemma copy_at_tail:
  "copy_at (data @ replicate (length method + 1) 0) (length data) method
     = data @ method @ [0]"
  by (simp add: copy_at_def min_def Let_def drop_cons_replicate)

lemma method_payload_eq:
  "method_payload data method = data @ method @ [of_nat (length method)]"
proof -
  have "(data @ method @ [0::8 word])[length data + length method := of_nat (length method)]
        = data @ method @ [of_nat (length method)]"
    by (simp add: list_update_append)
  then show ?thesis
    using copy_at_tail [of data "method"] by (simp add: method_payload_def Let_def)
qed

text \<open>
  Claim C5, as the code has it. When the codec marshals the request, \<open>Call\<close> enters
  \<open>callCmdWithTimeout\<close> with the command \<open>CmdRpcMethod\<close> and the payload made of the
  marshalled request, the bytes of the method name and one last byte. That byte is the
  length of the name modulo 256: it is the length for a name of at most 255 bytes, and
  \<open>Call\<close> does not refuse a longer name.
\<close>

theorem Call_payload:
  "marshal req = Inr data \<Longrightarrow>
   Call K marshal method req
     = Inr (CallLock Timed (CmdRpcMethod K) (data @ method @ [of_nat (length method)]))
   \<and> unat (of_nat (length method) :: 8 word) = length method mod 256
   \<and> (length method \<le> 255 \<longrightarrow> unat (of_nat (length method) :: 8 word) = length method)"
  by (simp add: Call_def method_payload_eq unat_of_nat)

theorem Call_payload_witness:
  "Call codes0 Inr [69, 99, 104, 111] [1, 2]
     = Inr (CallLock Timed 2 [1, 2, 69, 99, 104, 111, 4])
   \<and> unat (4 :: 8 word) = 4"
  using Call_payload [of Inr "[1, 2]" "[1, 2]" codes0 "[69, 99, 104, 111]"]
  by (simp add: codes0_def)

text \<open>
  Claim C5 as stated fails for a name of 256 bytes: \<open>Call\<close> accepts it, and the last byte
  of the payload is 0, not the length of the name.
\<close>

theorem Call_long_name_counterexample:
  "Call codes0 Inr (replicate 256 97) [1, 2]
     = Inr (CallLock Timed 2 ([1, 2] @ replicate 256 97 @ [0]))
   \<and> unat (last (method_payload [1, 2] (replicate 256 97)))
       \<noteq> length (replicate 256 (97 :: 8 word))"
  by (simp add: Call_def method_payload_eq codes0_def)

subsection \<open>Removing a session, and replies that find none\<close>

lemma removeSession_absent:
  "map_of (sessionMap c) sq = None \<Longrightarrow> removeSession sq c = c"
  by (simp add: removeSession_def Let_def map_of_eq_None_iff)

lemma removeSession_idem: "removeSession sq (removeSession sq c) = removeSession sq c"
  by (simp add: removeSession_def Let_def AList.delete_idem)

lemma unlock_relock: "mu c = None \<Longrightarrow> c\<lparr>mu := Some i\<rparr>\<lparr>mu := None\<rparr> = c"
  by (cases c) simp

text \<open>
  Claim C8. \<open>removeSession\<close> of a number that is not in the table leaves the client as it
  is, and removing twice is removing once. When the handler looks up the number of a
  reply and finds no session, it releases the mutex and finishes: it does not panic and
  changes nothing else. From a free mutex the whole handler, for a reply with the code
  \<open>CmdRpcMethod\<close> or \<open>CmdRpcError\<close>, leaves the client exactly as it was.
\<close>

theorem removeSession_idempotent_router_drops:
  "(map_of (sessionMap c) sq = None \<longrightarrow> removeSession sq c = c)
   \<and> removeSession sq (removeSession sq c) = removeSession sq c
   \<and> (map_of (sessionMap c) (RpcSeq m) = None \<longrightarrow>
        step K i p (RouterLookup m) c = Done (RouterDone, c\<lparr>mu := None\<rparr>))
   \<and> (map_of (sessionMap c) (RpcSeq m) = None \<and> mu c = None \<and> Cmd m \<noteq> CmdPing K
        \<and> (Cmd m = CmdRpcMethod K \<or> Cmd m = CmdRpcError K) \<longrightarrow>
        run K [(0, p), (0, p)] (c, [OnMessage m]) = Done (c, [RouterDone]))"
  by (simp add: removeSession_absent removeSession_idem gstep_def unlock_relock)

theorem removeSession_idempotent_router_drops_witness:
  "removeSession 2 client0 = client0
   \<and> step codes0 0 PickComm (RouterLookup \<lparr>Cmd = 2, RpcSeq = 2, Body = [7]\<rparr>) client0
       = Done (RouterDone, client0)
   \<and> run codes0 [(0, PickComm), (0, PickComm)]
         (client0, [OnMessage \<lparr>Cmd = 3, RpcSeq = 2, Body = [7]\<rparr>])
       = Done (client0, [RouterDone])"
  using removeSession_idempotent_router_drops
          [of client0 2 "\<lparr>Cmd = 2, RpcSeq = 2, Body = [7]\<rparr>" codes0 0 PickComm]
        removeSession_idempotent_router_drops
          [of client0 2 "\<lparr>Cmd = 3, RpcSeq = 2, Body = [7]\<rparr>" codes0 0 PickComm]
  by (simp add: client0_def codes0_def)

subsection \<open>Calls on a client that is not running\<close>

text \<open>
  Claim C3. When \<open>running\<close> is false at the test of line 44 or 69, the call releases the
  mutex and returns \<open>ErrRpcClientIsDisconnected\<close> with no payload. From a free mutex the
  whole call takes two steps and leaves the client exactly as it was: \<open>sendSeq\<close>, the
  outbound queue and the session table are untouched.
\<close>

theorem call_while_not_running:
  "\<not> running c \<Longrightarrow>
   step K i p (CallCheck v cmd data) c
     = Done (Returned (None, Some ErrRpcClientIsDisconnected), c\<lparr>mu := None\<rparr>)
   \<and> (mu c = None \<longrightarrow>
        run K [(0, p), (0, q)] (c, [CallLock v cmd data])
          = Done (c, [Returned (None, Some ErrRpcClientIsDisconnected)]))"
  by (simp add: gstep_def unlock_relock)

theorem call_while_not_running_witness:
  "\<not> running (client0\<lparr>running := False\<rparr>)
   \<and> run codes0 [(0, PickComm), (0, PickComm)]
         (client0\<lparr>running := False\<rparr>, [CallLock Timed 7 [1]])
       = Done (client0\<lparr>running := False\<rparr>, [Returned (None, Some ErrRpcClientIsDisconnected)])
   \<and> sendSeq (client0\<lparr>running := False\<rparr>) = 1
   \<and> chSend (client0\<lparr>running := False\<rparr>) = []
   \<and> sessionMap (client0\<lparr>running := False\<rparr>) = [(1, \<lparr>seq = 1, done_ch = 0\<rparr>)]"
  using call_while_not_running
          [of "client0\<lparr>running := False\<rparr>" codes0 0 PickComm Timed 7 "[1]" PickComm]
  by (simp add: client0_def)

subsection \<open>A timeout during the hand-off\<close>

text \<open>
  Claim C4. In \<open>callCmdWithTimeout\<close>, when the timer of line 78 is picked, the call
  releases the mutex and returns \<open>ErrRpcCallTimeout\<close>; the session table is the one it
  found, and the goroutine has finished, so it registers nothing later. When the
  outbound queue is full the send cannot be picked. From a free mutex on a running
  client the whole call changes only \<open>sendSeq\<close> and the heap of channels.
\<close>

theorem send_timeout_registers_nothing:
  "step K i PickTimer (CallSend Timed s m) c
     = Done (Returned (None, Some ErrRpcCallTimeout), c\<lparr>mu := None\<rparr>)
   \<and> sessionMap (c\<lparr>mu := None\<rparr>) = sessionMap c
   \<and> step K i p (Returned (None, Some ErrRpcCallTimeout)) c' = Blocked
   \<and> (chSendCap c \<le> length (chSend c) \<longrightarrow> step K i PickComm (CallSend Timed s m) c = Blocked)
   \<and> (running c \<and> mu c = None \<longrightarrow>
        run K [(0, p), (0, q), (0, PickTimer)] (c, [CallLock Timed cmd data])
          = Done (c\<lparr>sendSeq := sendSeq c + 1, heap := heap c @ [make_chan]\<rparr>,
                  [Returned (None, Some ErrRpcCallTimeout)]))"
  by (simp add: gstep_def send_frame_def Let_def unlock_relock)

theorem send_timeout_registers_nothing_witness:
  "step codes0 0 PickComm (CallSend Timed session1 boom) (client0\<lparr>chSendCap := 0\<rparr>) = Blocked
   \<and> run codes0 [(0, PickComm), (0, PickComm), (0, PickTimer)] (client0, [CallLock Timed 7 [1]])
       = Done (client0\<lparr>sendSeq := 2, heap := [make_chan, make_chan]\<rparr>,
               [Returned (None, Some ErrRpcCallTimeout)])
   \<and> sessionMap (client0\<lparr>sendSeq := 2, heap := [make_chan, make_chan]\<rparr>) = sessionMap client0"
  using send_timeout_registers_nothing
          [where K = codes0 and i = 0 and s = session1 and m = boom
             and c = "client0\<lparr>chSendCap := 0\<rparr>"]
        send_timeout_registers_nothing
          [where K = codes0 and c = client0 and p = PickComm and q = PickComm
             and cmd = 7 and data = "[1]"]
  by (simp add: client0_def)

subsection \<open>The session is removed before the call returns\<close>

lemma map_of_removeSession: "map_of (sessionMap (removeSession sq c)) sq = None"
  by (simp add: removeSession_def Let_def AList.delete_conv)

lemma recv_result_cases:
  "recv_result s c = Done (t, c') \<Longrightarrow> \<exists>r. t = RemoveLock s r"
  by (auto simp: recv_result_def split: outcome.splits prod.splits)

text \<open>
  Claim C6. Whatever ends the wait of a call (a value, a closed channel, the timer), the
  call goes on to the deferred \<open>removeSession\<close> with its session; \<open>removeSession\<close> takes
  the mutex, deletes the number of the session from the table and returns the result,
  and after it the table has no entry for that number. A step that makes a call return
  is the not-running branch, the timeout of the hand-off (both before any session is
  registered), or this removal.
\<close>

theorem session_removed_before_return:
  "(step K i p (CallWait v s) c = Done (t, c') \<longrightarrow> (\<exists>r. t = RemoveLock s r))
   \<and> (step K i p (RemoveLock s r) c = Done (t, c') \<longrightarrow> t = RemoveBody s r)
   \<and> step K i p (RemoveBody s r) c = Done (Returned r, (removeSession (seq s) c)\<lparr>mu := None\<rparr>)
   \<and> map_of (sessionMap ((removeSession (seq s) c)\<lparr>mu := None\<rparr>)) (seq s) = None
   \<and> (step K i p t c = Done (Returned r, c') \<longrightarrow>
        (\<exists>v cmd data. t = CallCheck v cmd data) \<or> (\<exists>s m. t = CallSend Timed s m)
        \<or> (\<exists>s. t = RemoveBody s r \<and> map_of (sessionMap c') (seq s) = None))"
proof -
  have wait: "step K i p (CallWait v s) c = Done (t, c') \<longrightarrow> (\<exists>r. t = RemoveLock s r)"
    by (cases v; cases p) (auto dest: recv_result_cases)
  have lock: "step K i p (RemoveLock s r) c = Done (t, c') \<longrightarrow> t = RemoveBody s r"
    by (auto split: if_splits)
  have ret: "step K i p t c = Done (Returned r, c') \<longrightarrow>
        (\<exists>v cmd data. t = CallCheck v cmd data) \<or> (\<exists>s m. t = CallSend Timed s m)
        \<or> (\<exists>s. t = RemoveBody s r \<and> map_of (sessionMap c') (seq s) = None)"
  proof (cases t)
    case (CallSend v' s' m')
    then show ?thesis by (cases v'; cases p) (auto simp: send_frame_def split: if_splits)
  next
    case (CallWait v' s')
    then show ?thesis by (cases v'; cases p) (auto dest: recv_result_cases)
  next
    case (RemoveBody s' r')
    then show ?thesis by (auto simp: map_of_removeSession)
  qed (auto simp: Let_def split: if_splits option.splits outcome.splits)
  show ?thesis using wait lock ret by (simp add: map_of_removeSession)
qed

theorem session_removed_before_return_witness:
  "step codes0 0 PickTimer (CallWait Timed session1) client0
     = Done (RemoveLock session1 (None, Some ErrRpcCallTimeout), client0)
   \<and> step codes0 0 PickTimer (RemoveLock session1 (None, Some ErrRpcCallTimeout)) client0
     = Done (RemoveBody session1 (None, Some ErrRpcCallTimeout), client0\<lparr>mu := Some 0\<rparr>)
   \<and> step codes0 0 PickTimer (RemoveBody session1 (None, Some ErrRpcCallTimeout))
        (client0\<lparr>mu := Some 0\<rparr>)
     = Done (Returned (None, Some ErrRpcCallTimeout), client0\<lparr>sessionMap := []\<rparr>)
   \<and> map_of (sessionMap (client0\<lparr>sessionMap := []\<rparr>)) (seq session1) = None"
  using session_removed_before_return
          [where K = codes0 and i = 0 and p = PickTimer and v = Timed and s = session1
             and c = "client0\<lparr>mu := Some 0\<rparr>"
             and r = "(None, Some ErrRpcCallTimeout)"]
  by (simp add: eval_defs)

subsection \<open>Replies with the error code\<close>

lemma heap_send_open_empty:
  "a < length h \<Longrightarrow> \<not> closed (h ! a) \<Longrightarrow> buf (h ! a) = [] \<Longrightarrow>
   heap_send a e h = Done (h[a := (h ! a)\<lparr>buf := [e]\<rparr>])"
  by (simp add: heap_send_def chan_send_def done_cap_def)

lemma heap_recv_value:
  "a < length h \<Longrightarrow> buf (h ! a) = e # es \<Longrightarrow>
   heap_recv a h = Done (Some e, h[a := (h ! a)\<lparr>buf := es\<rparr>])"
  by (simp add: heap_recv_def chan_recv_def)

text \<open>
  Claim C2, as the code has it. For a frame with the code \<open>CmdRpcError\<close> whose number is
  in the table, the handler releases the mutex and goes on to send, on the channel of
  the session, the envelope that holds the frame itself and the error made from its body.
  On an open and empty channel the send stores the envelope. The waiting call that
  receives an envelope returns the body of its frame as the payload together with its
  error: for this envelope, the body and the error whose message is the body. The public
  calls return only that error.
\<close>

theorem rpc_error_reply_delivered:
  assumes "Cmd m = CmdRpcError K" and "Cmd m \<noteq> CmdRpcMethod K"
    and "map_of (sessionMap c) (RpcSeq m) = Some s"
  shows "step K i p (RouterLookup m) c
           = Done (RouterDeliver s \<lparr>msg = m, err = Some (ErrorsNew (Body m))\<rparr>, c\<lparr>mu := None\<rparr>)
         \<and> (done_ch s < length (heap c2) \<and> \<not> closed (heap c2 ! done_ch s)
              \<and> buf (heap c2 ! done_ch s) = [] \<longrightarrow>
            step K i p (RouterDeliver s e) c2
              = Done (RouterDone,
                      c2\<lparr>heap := (heap c2)[done_ch s := (heap c2 ! done_ch s)\<lparr>buf := [e]\<rparr>]\<rparr>))
         \<and> (done_ch s < length (heap c3) \<and> buf (heap c3 ! done_ch s) = e # es \<longrightarrow>
            step K j PickComm (CallWait v s) c3
              = Done (RemoveLock s (Some (Body (msg e)), err e),
                      c3\<lparr>heap := (heap c3)[done_ch s := (heap c3 ! done_ch s)\<lparr>buf := es\<rparr>]\<rparr>))
         \<and> finish unmarshal w (Some (Body m), Some (ErrorsNew (Body m))) = Some (ErrorsNew (Body m))"
proof -
  have wait: "done_ch s < length (heap c3) \<and> buf (heap c3 ! done_ch s) = e # es \<longrightarrow>
            step K j PickComm (CallWait v s) c3
              = Done (RemoveLock s (Some (Body (msg e)), err e),
                      c3\<lparr>heap := (heap c3)[done_ch s := (heap c3 ! done_ch s)\<lparr>buf := es\<rparr>]\<rparr>)"
    by (cases v) (simp_all add: recv_result_def heap_recv_value received_def)
  show ?thesis
    using assms wait by (simp add: envelope_def heap_send_open_empty finish_def)
qed

theorem rpc_error_reply_delivered_witness:
  "run codes0 [(1, PickComm), (1, PickComm), (1, PickComm), (0, PickComm)]
       (client0, [CallWait Plain session1, OnMessage boom])
     = Done (client0, [RemoveLock session1 (Some [98, 111, 111, 109], Some (ErrorsNew [98, 111, 111, 109])),
                       RouterDone])"
  using rpc_error_reply_delivered [where m = boom and K = codes0 and c = "client0\<lparr>mu := Some 1\<rparr>"
      and s = session1 and i = 1 and p = PickComm and ?c2.0 = client0
      and e = "\<lparr>msg = boom, err = Some (ErrorsNew (Body boom))\<rparr>" and es = "[]" and j = 0 and v = Plain
      and ?c3.0 = "client0\<lparr>heap := [\<lparr>buf = [\<lparr>msg = boom, err = Some (ErrorsNew (Body boom))\<rparr>], closed = False\<rparr>]\<rparr>"]
  by (simp add: eval_defs)

text \<open>
  Claim C2 as stated fails: the call that waits for session 1 and gets the error reply
  \<open>boom\<close> returns the four bytes of its body as the payload, not \<open>nil\<close>, and the envelope
  carries the frame.
\<close>

theorem rpc_error_reply_payload_counterexample:
  "run codes0 [(1, PickComm), (1, PickComm), (1, PickComm), (0, PickComm), (0, PickComm), (0, PickComm)]
       (client0, [CallWait Plain session1, OnMessage boom])
     = Done (client0\<lparr>sessionMap := []\<rparr>,
             [Returned (Some [98, 111, 111, 109], Some (ErrorsNew [98, 111, 111, 109])), RouterDone])
   \<and> msg (envelope codes0 boom) = boom
   \<and> Body (msg (envelope codes0 boom)) = [98, 111, 111, 109]"
  by (simp add: eval_defs)

subsection \<open>The close callback\<close>

lemma heap_close_open:
  "a < length h \<Longrightarrow> \<not> closed (h ! a) \<Longrightarrow> heap_close a h = Done (h[a := (h ! a)\<lparr>closed := True\<rparr>])"
  by (simp add: heap_close_def chan_close_def)

lemma close_sessions_open:
  "distinct (map done_ch ss) \<Longrightarrow>
   \<forall>s\<in>set ss. done_ch s < length h \<and> \<not> closed (h ! done_ch s) \<Longrightarrow>
   \<exists>h'. close_sessions ss h = Done h' \<and> length h' = length h
        \<and> (\<forall>a<length h. buf (h' ! a) = buf (h ! a)
              \<and> closed (h' ! a) = (closed (h ! a) \<or> a \<in> done_ch ` set ss))"
proof (induction ss arbitrary: h)
  case Nil
  then show ?case by simp
next
  case (Cons s ss)
  let ?h1 = "h[done_ch s := (h ! done_ch s)\<lparr>closed := True\<rparr>]"
  have s: "done_ch s < length h" "\<not> closed (h ! done_ch s)" using Cons.prems by auto
  have d: "distinct (map done_ch ss)" "done_ch s \<notin> done_ch ` set ss" using Cons.prems by auto
  have "\<forall>x\<in>set ss. done_ch x < length ?h1 \<and> \<not> closed (?h1 ! done_ch x)"
    using Cons.prems d by (auto simp: nth_list_update)
  from Cons.IH [OF d(1) this] obtain h' where h':
    "close_sessions ss ?h1 = Done h'" "length h' = length ?h1"
    "\<forall>a<length ?h1. buf (h' ! a) = buf (?h1 ! a)
        \<and> closed (h' ! a) = (closed (?h1 ! a) \<or> a \<in> done_ch ` set ss)"
    by blast
  have "close_sessions (s # ss) h = Done h'"
    using s h'(1) by (simp add: heap_close_open)
  moreover have "length h' = length h" using h'(2) by simp
  moreover have "\<forall>a<length h. buf (h' ! a) = buf (h ! a)
        \<and> closed (h' ! a) = (closed (h ! a) \<or> a \<in> done_ch ` set (s # ss))"
    using h'(3) s by (auto simp: nth_list_update)
  ultimately show ?case by blast
qed

lemma heap_recv_closed:
  "a < length h \<Longrightarrow> closed (h ! a) \<Longrightarrow> buf (h ! a) = [] \<Longrightarrow> heap_recv a h = Done (None, h)"
  by (simp add: heap_recv_def chan_recv_def)

lemma set_heap_same: "c\<lparr>heap := heap c\<rparr> = c"
  by (cases c) simp

text \<open>
  Claim C7, as the code has it. When the channels of the sessions in the table are open
  and distinct, the close callback, under the mutex, closes each of them, sends nothing
  (every buffer is as before), empties the table and releases the mutex; it leaves
  \<open>running\<close> as it finds it. A call that waits on a closed and empty channel goes to its
  cleanup with \<open>ErrRpcClientIsDisconnected\<close> and no payload, and a call that has returned
  takes no further step.
\<close>

theorem close_callback:
  assumes "distinct (map done_ch (map snd (sessionMap c)))"
    and "\<forall>s\<in>set (map snd (sessionMap c)). done_ch s < length (heap c) \<and> \<not> closed (heap c ! done_ch s)"
  shows "\<exists>h. step K i p CloseBody c = Done (CloseDone, c\<lparr>heap := h, sessionMap := [], mu := None\<rparr>)
           \<and> length h = length (heap c)
           \<and> (\<forall>a<length (heap c). buf (h ! a) = buf (heap c ! a)
                \<and> closed (h ! a) = (closed (heap c ! a) \<or> a \<in> done_ch ` set (map snd (sessionMap c))))
           \<and> running (c\<lparr>heap := h, sessionMap := [], mu := None\<rparr>) = running c
           \<and> (done_ch s < length (heap c3) \<and> closed (heap c3 ! done_ch s)
                \<and> buf (heap c3 ! done_ch s) = [] \<longrightarrow>
              step K j PickComm (CallWait v s) c3
                = Done (RemoveLock s (None, Some ErrRpcClientIsDisconnected), c3))
           \<and> step K j q (Returned r) c4 = Blocked"
proof -
  from close_sessions_open [OF assms] obtain h where h:
    "close_sessions (map snd (sessionMap c)) (heap c) = Done h" "length h = length (heap c)"
    "\<forall>a<length (heap c). buf (h ! a) = buf (heap c ! a)
        \<and> closed (h ! a) = (closed (heap c ! a) \<or> a \<in> done_ch ` set (map snd (sessionMap c)))"
    by blast
  have wait: "done_ch s < length (heap c3) \<and> closed (heap c3 ! done_ch s)
                \<and> buf (heap c3 ! done_ch s) = [] \<longrightarrow>
              step K j PickComm (CallWait v s) c3
                = Done (RemoveLock s (None, Some ErrRpcClientIsDisconnected), c3)"
    by (cases v) (simp_all add: recv_result_def heap_recv_closed received_def set_heap_same)
  have "step K i p CloseBody c = Done (CloseDone, c\<lparr>heap := h, sessionMap := [], mu := None\<rparr>)"
    using h(1) by simp
  with h(2,3) wait show ?thesis by auto
qed

theorem close_callback_witness:
  "run codes0 [(1, PickComm), (1, PickComm), (0, PickComm), (0, PickComm), (0, PickComm)]
       (client0, [CallWait Plain session1, OnClose])
     = Done (client0\<lparr>heap := [\<lparr>buf = [], closed = True\<rparr>], sessionMap := []\<rparr>,
             [Returned (None, Some ErrRpcClientIsDisconnected), CloseDone])"
  using close_callback [where c = "client0\<lparr>mu := Some 1\<rparr>" and K = codes0 and i = 1 and p = PickComm
      and s = session1 and j = 0 and v = Plain
      and ?c3.0 = "client0\<lparr>heap := [\<lparr>buf = [], closed = True\<rparr>], sessionMap := []\<rparr>"]
  by (simp add: eval_defs)

text \<open>
  Claim C7 as stated fails on the running flag: the callback of lines 177 to 184 run on
  the running client \<open>client0\<close> closes the channel and empties the table, and \<open>running\<close>
  is still true.
\<close>

theorem close_callback_running_counterexample:
  "run codes0 [(0, PickComm), (0, PickComm)] (client0, [OnClose])
     = Done (client0\<lparr>heap := [\<lparr>buf = [], closed = True\<rparr>], sessionMap := []\<rparr>, [CloseDone])
   \<and> running (client0\<lparr>heap := [\<lparr>buf = [], closed = True\<rparr>], sessionMap := []\<rparr>)"
  by (simp add: eval_defs)

subsection \<open>The mutex\<close>

lemma step_lock:
  assumes "step K i p t c = Done (t', c')" and "holds t = (mu c = Some i)"
  shows "holds t' = (mu c' = Some i)
         \<and> (mu c' = mu c \<or> (mu c = None \<and> mu c' = Some i) \<or> (mu c = Some i \<and> mu c' = None))"
proof (cases t)
  case (CallSend v s m)
  then show ?thesis using assms
    by (cases v; cases p) (auto simp: send_frame_def split: if_splits)
next
  case (CallWait v s)
  then show ?thesis using assms
    by (cases v; cases p) (auto simp: recv_result_def split: outcome.splits prod.splits)
qed (use assms in \<open>auto simp: Let_def split: if_splits option.splits outcome.splits\<close>)

lemma gstep_lock_inv:
  assumes "lock_inv cfg" and "gstep K ev cfg = Done cfg'"
  shows "lock_inv cfg'"
proof -
  obtain c ts where cfg: "cfg = (c, ts)" by (cases cfg)
  obtain i p where ev: "ev = (i, p)" by (cases ev)
  show ?thesis
  proof (cases "i < length ts")
    case False
    then show ?thesis using assms cfg ev by (simp add: gstep_def)
  next
    case True
    show ?thesis
    proof (cases "step K i p (ts ! i) c")
      case (Done x)
      obtain t' c' where x: "x = (t', c')" by (cases x)
      have cfg': "cfg' = (c', ts[i := t'])"
        using assms(2) cfg ev True Done x by (simp add: gstep_def)
      have hi: "holds (ts ! i) = (mu c = Some i)"
        using assms(1) cfg True by (simp add: lock_inv_def)
      from step_lock [OF Done [unfolded x] hi]
      have h': "holds t' = (mu c' = Some i)"
        and m': "mu c' = mu c \<or> (mu c = None \<and> mu c' = Some i) \<or> (mu c = Some i \<and> mu c' = None)"
        by auto
      have others: "\<forall>j<length ts. j \<noteq> i \<longrightarrow> holds (ts ! j) = (mu c' = Some j)"
        using assms(1) cfg m' by (auto simp: lock_inv_def)
      have bound: "case mu c' of None \<Rightarrow> True | Some k \<Rightarrow> k < length ts"
        using assms(1) cfg m' True by (auto simp: lock_inv_def split: option.splits)
      show ?thesis
        unfolding cfg' lock_inv_def using h' others bound True
        by (auto simp: nth_list_update split: option.splits)
    next
      case Blocked
      then show ?thesis using assms cfg ev True by (simp add: gstep_def)
    next
      case Panicked
      then show ?thesis using assms cfg ev True by (simp add: gstep_def)
    qed
  qed
qed

lemma run_lock_inv:
  "lock_inv cfg \<Longrightarrow> run K evs cfg = Done cfg' \<Longrightarrow> lock_inv cfg'"
proof (induction evs arbitrary: cfg)
  case Nil
  then show ?case by simp
next
  case (Cons ev evs)
  then show ?case
    by (cases "gstep K ev cfg") (auto dest: gstep_lock_inv)
qed

text \<open>
  Claim C9, as the code has it. The discipline of the mutex holds along every run that
  starts in a configuration where it holds (for one, every goroutine at its start and the
  mutex free). So a call that is at the hand-off of line 50 or 75 holds the mutex: the
  send on the outbound queue is performed under the lock. A call that is at the wait of
  line 58 or 88 does not hold it.
\<close>

theorem lock_discipline:
  assumes "lock_inv cfg" and "run K evs cfg = Done (c', ts')"
  shows "lock_inv (c', ts')
         \<and> (\<forall>i<length ts'. (\<forall>v s m. ts' ! i = CallSend v s m \<longrightarrow> mu c' = Some i)
                          \<and> (\<forall>v s. ts' ! i = CallWait v s \<longrightarrow> mu c' \<noteq> Some i))"
proof -
  have inv: "lock_inv (c', ts')" using run_lock_inv [OF assms] .
  then have hs: "\<forall>i<length ts'. holds (ts' ! i) = (mu c' = Some i)"
    by (simp add: lock_inv_def)
  have "(\<forall>v s m. ts' ! i = CallSend v s m \<longrightarrow> mu c' = Some i)
        \<and> (\<forall>v s. ts' ! i = CallWait v s \<longrightarrow> mu c' \<noteq> Some i)" if "i < length ts'" for i
  proof -
    have h: "holds (ts' ! i) = (mu c' = Some i)" using hs that by simp
    show ?thesis
    proof (intro conjI allI impI)
      fix v s m assume "ts' ! i = CallSend v s m"
      then show "mu c' = Some i" using h by simp
    next
      fix v s assume "ts' ! i = CallWait v s"
      then show "mu c' \<noteq> Some i" using h by simp
    qed
  qed
  with inv show ?thesis by simp
qed

theorem lock_discipline_witness:
  "lock_inv (client0, [CallLock Plain 7 [1]])
   \<and> run codes0 [(0, PickComm), (0, PickComm), (0, PickComm), (0, PickComm)]
         (client0, [CallLock Plain 7 [1]])
       = Done (client0\<lparr>sendSeq := 2, chSend := [\<lparr>Cmd = 7, RpcSeq = 2, Body = [1]\<rparr>],
                       sessionMap := [(1, \<lparr>seq = 1, done_ch = 0\<rparr>), (2, \<lparr>seq = 2, done_ch = 1\<rparr>)],
                       heap := [make_chan, make_chan]\<rparr>,
               [CallWait Plain \<lparr>seq = 2, done_ch = 1\<rparr>])
   \<and> mu (client0\<lparr>sendSeq := 2, chSend := [\<lparr>Cmd = 7, RpcSeq = 2, Body = [1]\<rparr>],
                  sessionMap := [(1, \<lparr>seq = 1, done_ch = 0\<rparr>), (2, \<lparr>seq = 2, done_ch = 1\<rparr>)],
                  heap := [make_chan, make_chan]\<rparr>) \<noteq> Some 0"
proof -
  have a: "lock_inv (client0, [CallLock Plain 7 [1]])"
    by (simp add: lock_inv_def client0_def)
  have b: "run codes0 [(0, PickComm), (0, PickComm), (0, PickComm), (0, PickComm)]
         (client0, [CallLock Plain 7 [1]])
       = Done (client0\<lparr>sendSeq := 2, chSend := [\<lparr>Cmd = 7, RpcSeq = 2, Body = [1]\<rparr>],
                       sessionMap := [(1, \<lparr>seq = 1, done_ch = 0\<rparr>), (2, \<lparr>seq = 2, done_ch = 1\<rparr>)],
                       heap := [make_chan, make_chan]\<rparr>,
               [CallWait Plain \<lparr>seq = 2, done_ch = 1\<rparr>])"
    by (simp add: eval_defs)
  from lock_discipline [OF a b] show ?thesis using a b by simp
qed

text \<open>
  Claim C9 as stated fails for the hand-off: after \<open>Lock\<close> and the test of \<open>running\<close>
  the call holds the mutex, and its next step, the send of line 50, puts the frame on
  the outbound queue with the mutex still held.
\<close>

theorem send_under_lock_counterexample:
  "run codes0 [(0, PickComm), (0, PickComm)] (client0, [CallLock Plain 7 [1]])
     = Done (client0\<lparr>mu := Some 0, sendSeq := 2, heap := [make_chan, make_chan]\<rparr>,
             [CallSend Plain \<lparr>seq = 2, done_ch = 1\<rparr> \<lparr>Cmd = 7, RpcSeq = 2, Body = [1]\<rparr>])
   \<and> step codes0 0 PickComm
        (CallSend Plain \<lparr>seq = 2, done_ch = 1\<rparr> \<lparr>Cmd = 7, RpcSeq = 2, Body = [1]\<rparr>)
        (client0\<lparr>mu := Some 0, sendSeq := 2, heap := [make_chan, make_chan]\<rparr>)
     = Done (CallRegister Plain \<lparr>seq = 2, done_ch = 1\<rparr>,
             client0\<lparr>mu := Some 0, sendSeq := 2, heap := [make_chan, make_chan],
                     chSend := [\<lparr>Cmd = 7, RpcSeq = 2, Body = [1]\<rparr>]\<rparr>)
   \<and> mu (client0\<lparr>mu := Some 0, sendSeq := 2, heap := [make_chan, make_chan]\<rparr>) = Some 0"
  by (simp add: eval_defs)

subsection \<open>The outcomes of a timed call\<close>

lemma clean_heap_update:
  "clean_heap h \<Longrightarrow> \<forall>e\<in>set (buf x). err e \<noteq> Some ErrRpcCallClientError \<Longrightarrow> clean_heap (h[a := x])"
  unfolding clean_heap_def using set_update_subset_insert [of h a x] by blast

lemma clean_heap_nth: "clean_heap h \<Longrightarrow> a < length h \<Longrightarrow> e \<in> set (buf (h ! a)) \<Longrightarrow> err e \<noteq> Some ErrRpcCallClientError"
  unfolding clean_heap_def using nth_mem by blast

lemma heap_recv_clean:
  assumes "heap_recv a h = Done (r, h')" and "clean_heap h"
  shows "clean_heap h' \<and> clean_result (received r)
         \<and> (r = None \<or> (\<exists>e. a < length h \<and> e \<in> set (buf (h ! a)) \<and> r = Some e))"
proof -
  have a: "a < length h" using assms(1) by (auto simp: heap_recv_def split: if_splits)
  show ?thesis
  proof (cases "buf (h ! a)")
    case Nil
    then show ?thesis using assms a
      by (auto simp: heap_recv_def chan_recv_def received_def clean_heap_update split: if_splits)
  next
    case (Cons e es)
    have "\<forall>x\<in>set (e # es). err x \<noteq> Some ErrRpcCallClientError"
      using clean_heap_nth [OF assms(2) a] Cons by auto
    then show ?thesis using assms a Cons
      by (auto simp: heap_recv_def chan_recv_def received_def intro!: clean_heap_update)
  qed
qed

lemma heap_send_clean:
  assumes "heap_send a e h = Done h'" and "clean_heap h" and "err e \<noteq> Some ErrRpcCallClientError"
  shows "clean_heap h'"
proof -
  have a: "a < length h" using assms(1) by (auto simp: heap_send_def split: if_splits)
  have "\<forall>x\<in>set (buf (h ! a)). err x \<noteq> Some ErrRpcCallClientError"
    using clean_heap_nth [OF assms(2) a] by auto
  then show ?thesis using assms a
    by (auto simp: heap_send_def chan_send_def split: if_splits intro!: clean_heap_update)
qed

lemma heap_close_clean:
  assumes "heap_close a h = Done h'" and "clean_heap h"
  shows "clean_heap h'"
proof -
  have a: "a < length h" using assms(1) by (auto simp: heap_close_def split: if_splits)
  have "\<forall>x\<in>set (buf (h ! a)). err x \<noteq> Some ErrRpcCallClientError"
    using clean_heap_nth [OF assms(2) a] by auto
  then show ?thesis using assms a
    by (auto simp: heap_close_def chan_close_def split: if_splits intro!: clean_heap_update)
qed

lemma close_sessions_clean:
  "close_sessions ss h = Done h' \<Longrightarrow> clean_heap h \<Longrightarrow> clean_heap h'"
proof (induction ss arbitrary: h)
  case Nil
  then show ?case by simp
next
  case (Cons s ss)
  then show ?case
    by (cases "heap_close (done_ch s) h") (auto dest: heap_close_clean)
qed

lemma clean_heap_append: "clean_heap h \<Longrightarrow> clean_heap (h @ [make_chan])"
  by (simp add: clean_heap_def make_chan_def)

lemma recv_result_clean:
  assumes "recv_result s c = Done (t', c')" and "clean_heap (heap c)"
  shows "clean_thread t' \<and> clean_heap (heap c')"
proof (cases "heap_recv (done_ch s) (heap c)")
  case (Done x)
  obtain r h where x: "x = (r, h)" by (cases x)
  from heap_recv_clean [OF Done [unfolded x] assms(2)]
  show ?thesis using assms(1) Done x by (auto simp: recv_result_def)
qed (use assms in \<open>auto simp: recv_result_def\<close>)

lemma step_clean:
  assumes "step K i p t c = Done (t', c')" and "clean_thread t" and "clean_heap (heap c)"
  shows "clean_thread t' \<and> clean_heap (heap c')"
proof (cases t)
  case (CallCheck v cmd data)
  then show ?thesis using assms by (auto simp: Let_def clean_heap_append split: if_splits)
next
  case (CallSend v s m)
  then show ?thesis using assms
    by (cases v; cases p) (auto simp: send_frame_def split: if_splits)
next
  case (CallWait v s)
  then show ?thesis using assms
    by (cases v; cases p) (auto dest: recv_result_clean)
next
  case (RemoveBody s r)
  then show ?thesis using assms by (auto simp: removeSession_def Let_def)
next
  case (RouterLookup m)
  then show ?thesis using assms by (auto simp: envelope_def split: option.splits)
next
  case (RouterDeliver s e)
  then show ?thesis using assms
    by (auto split: outcome.splits dest: heap_send_clean)
next
  case CloseBody
  then show ?thesis using assms
    by (auto split: outcome.splits dest: close_sessions_clean)
qed (use assms in \<open>auto split: if_splits\<close>)

lemma gstep_clean:
  assumes "clean cfg" and "gstep K ev cfg = Done cfg'"
  shows "clean cfg'"
proof -
  obtain c ts where cfg: "cfg = (c, ts)" by (cases cfg)
  obtain i p where ev: "ev = (i, p)" by (cases ev)
  show ?thesis
  proof (cases "i < length ts")
    case False
    then show ?thesis using assms cfg ev by (simp add: gstep_def)
  next
    case True
    show ?thesis
    proof (cases "step K i p (ts ! i) c")
      case (Done x)
      obtain t' c' where x: "x = (t', c')" by (cases x)
      have cfg': "cfg' = (c', ts[i := t'])"
        using assms(2) cfg ev True Done x by (simp add: gstep_def)
      have "clean_thread (ts ! i)" "clean_heap (heap c)"
        using assms(1) cfg True by (auto simp: clean_def)
      from step_clean [OF Done [unfolded x] this]
      have "clean_thread t'" "clean_heap (heap c')" by auto
      moreover have "\<forall>t\<in>set (ts[i := t']). t = t' \<or> t \<in> set ts"
        using set_update_subset_insert [of ts i t'] by auto
      ultimately show ?thesis
        unfolding cfg' clean_def using assms(1) cfg by (auto simp: clean_def)
    next
      case Blocked
      then show ?thesis using assms cfg ev True by (simp add: gstep_def)
    next
      case Panicked
      then show ?thesis using assms cfg ev True by (simp add: gstep_def)
    qed
  qed
qed

lemma run_clean:
  "clean cfg \<Longrightarrow> run K evs cfg = Done cfg' \<Longrightarrow> clean cfg'"
proof (induction evs arbitrary: cfg)
  case Nil
  then show ?case by simp
next
  case (Cons ev evs)
  then show ?case
    by (cases "gstep K ev cfg") (auto dest: gstep_clean)
qed

lemma step_never_falls_through:
  "step K i p t c = Done (t', c') \<Longrightarrow> t' \<noteq> CallFallThrough s'"
proof (cases t)
  case (CallSend v s m)
  assume "step K i p t c = Done (t', c')"
  with CallSend show ?thesis
    by (cases v; cases p) (auto simp: send_frame_def split: if_splits)
next
  case (CallWait v s)
  assume "step K i p t c = Done (t', c')"
  with CallWait show ?thesis
    by (cases v; cases p) (auto dest: recv_result_cases)
qed (auto simp: Let_def split: if_splits option.splits outcome.splits)

lemma step_decreases:
  "step K i p t c = Done (t', c') \<Longrightarrow> steps_left t' < steps_left t"
proof (cases t)
  case (CallSend v s m)
  assume "step K i p t c = Done (t', c')"
  with CallSend show ?thesis
    by (cases v; cases p) (auto simp: send_frame_def split: if_splits)
next
  case (CallWait v s)
  assume "step K i p t c = Done (t', c')"
  with CallWait show ?thesis
    by (cases v; cases p) (auto dest: recv_result_cases)
qed (auto simp: Let_def split: if_splits option.splits outcome.splits)

lemma timed_wait_outcomes:
  assumes "step K i p (CallWait Timed s) c = Done (t', c')"
  shows "t' = RemoveLock s (None, Some ErrRpcCallTimeout)
         \<or> t' = RemoveLock s (None, Some ErrRpcClientIsDisconnected)
         \<or> (\<exists>e. done_ch s < length (heap c) \<and> e \<in> set (buf (heap c ! done_ch s))
                \<and> t' = RemoveLock s (Some (Body (msg e)), err e))"
proof (cases p)
  case PickTimer
  then show ?thesis using assms by simp
next
  case PickComm
  show ?thesis
  proof (cases "buf (heap c ! done_ch s)")
    case Nil
    then show ?thesis using assms PickComm
      by (auto simp: recv_result_def heap_recv_def chan_recv_def received_def split: if_splits)
  next
    case (Cons e es)
    then show ?thesis using assms PickComm
      by (auto simp: recv_result_def heap_recv_def chan_recv_def received_def split: if_splits)
  qed
qed

text \<open>
  Claim C10. Along every run from a clean configuration (for one, every goroutine at
  its start and the channels empty) no goroutine reaches line 97 and no call returns
  \<open>ErrRpcCallClientError\<close>. No step leads to line 97, and every step brings a goroutine
  nearer to its end. The wait of \<open>callCmdWithTimeout\<close> ends with \<open>ErrRpcCallTimeout\<close>,
  with \<open>ErrRpcClientIsDisconnected\<close>, or with the payload and error of an envelope
  that was in the channel of the session; the returns before it are the not-running
  branch and the timeout of the hand-off. With the timer picked, a step of \<open>callCmdWithTimeout\<close> is never blocked except by
  a mutex that another goroutine holds.
\<close>

theorem timed_call_outcomes:
  assumes "clean cfg" and "run K evs cfg = Done (c', ts')"
  shows "(\<forall>t\<in>set ts'. (\<forall>s. t \<noteq> CallFallThrough s)
            \<and> (\<forall>payload e. t = Returned (payload, e) \<longrightarrow> e \<noteq> Some ErrRpcCallClientError))
         \<and> (step K i p t c = Done (t2, c2) \<longrightarrow>
              t2 \<noteq> CallFallThrough s2 \<and> steps_left t2 < steps_left t)
         \<and> (step K i p (CallWait Timed s) c = Done (t2, c2) \<longrightarrow>
              t2 = RemoveLock s (None, Some ErrRpcCallTimeout)
              \<or> t2 = RemoveLock s (None, Some ErrRpcClientIsDisconnected)
              \<or> (\<exists>e. done_ch s < length (heap c) \<and> e \<in> set (buf (heap c ! done_ch s))
                     \<and> t2 = RemoveLock s (Some (Body (msg e)), err e)))
         \<and> step K i PickTimer (CallCheck Timed cmd data) c \<noteq> Blocked
         \<and> step K i PickTimer (CallSend Timed s m) c \<noteq> Blocked
         \<and> step K i PickTimer (CallRegister Timed s) c \<noteq> Blocked
         \<and> step K i PickTimer (CallWait Timed s) c \<noteq> Blocked
         \<and> step K i PickTimer (RemoveBody s r) c \<noteq> Blocked
         \<and> (mu c = None \<longrightarrow> step K i PickTimer (CallLock Timed cmd data) c \<noteq> Blocked
                           \<and> step K i PickTimer (RemoveLock s r) c \<noteq> Blocked)"
proof -
  have "clean (c', ts')" using run_clean [OF assms] .
  then have "\<forall>t\<in>set ts'. clean_thread t" by (simp add: clean_def)
  then have reach: "\<forall>t\<in>set ts'. (\<forall>s. t \<noteq> CallFallThrough s)
            \<and> (\<forall>payload e. t = Returned (payload, e) \<longrightarrow> e \<noteq> Some ErrRpcCallClientError)"
    by fastforce
  have st: "step K i p t c = Done (t2, c2) \<longrightarrow>
              t2 \<noteq> CallFallThrough s2 \<and> steps_left t2 < steps_left t"
    using step_never_falls_through step_decreases by blast
  have w: "step K i p (CallWait Timed s) c = Done (t2, c2) \<longrightarrow>
              t2 = RemoveLock s (None, Some ErrRpcCallTimeout)
              \<or> t2 = RemoveLock s (None, Some ErrRpcClientIsDisconnected)
              \<or> (\<exists>e. done_ch s < length (heap c) \<and> e \<in> set (buf (heap c ! done_ch s))
                     \<and> t2 = RemoveLock s (Some (Body (msg e)), err e))"
    using timed_wait_outcomes by blast
  show ?thesis using reach st w by (simp add: Let_def)
qed

theorem timed_call_outcomes_witness:
  "clean (client0, [CallLock Timed 7 [1]])
   \<and> run codes0 [(0, PickComm), (0, PickComm), (0, PickComm), (0, PickComm), (0, PickTimer),
                 (0, PickComm), (0, PickComm)]
         (client0, [CallLock Timed 7 [1]])
       = Done (client0\<lparr>sendSeq := 2, chSend := [\<lparr>Cmd = 7, RpcSeq = 2, Body = [1]\<rparr>],
                       heap := [make_chan, make_chan]\<rparr>,
               [Returned (None, Some ErrRpcCallTimeout)])
   \<and> step codes0 0 PickTimer (CallWait Timed session1) client0
       = Done (RemoveLock session1 (None, Some ErrRpcCallTimeout), client0)"
proof -
  have a: "clean (client0, [CallLock Timed 7 [1]])"
    by (simp add: clean_def clean_heap_def client0_def make_chan_def)
  have b: "run codes0 [(0, PickComm), (0, PickComm), (0, PickComm), (0, PickComm), (0, PickTimer),
                 (0, PickComm), (0, PickComm)]
         (client0, [CallLock Timed 7 [1]])
       = Done (client0\<lparr>sendSeq := 2, chSend := [\<lparr>Cmd = 7, RpcSeq = 2, Body = [1]\<rparr>],
                       heap := [make_chan, make_chan]\<rparr>,
               [Returned (None, Some ErrRpcCallTimeout)])"
    by (simp add: eval_defs)
  from timed_call_outcomes [OF a b, where i = 0 and p = PickTimer and s = session1
      and c = client0 and ?t2.0 = "RemoveLock session1 (None, Some ErrRpcCallTimeout)"
      and ?c2.0 = client0]
  show ?thesis using a b by (simp add: eval_defs)
qed

subsection \<open>Correlation IDs\<close>

lemma sint_succ:
  "sint (x :: 64 word) < 2 ^ 63 - 1 \<Longrightarrow> sint (x + 1) = sint x + 1"
  using sint_ge [of x]
  by (simp add: sint_word_ariths signed_take_bit_int_eq_self)

lemma step_sendSeq:
  assumes "step K i p t c = Done (t', c')"
  shows "(case allocated t t' of
            Some a \<Rightarrow> a = sendSeq c + 1 \<and> sendSeq c' = sendSeq c + 1
          | None \<Rightarrow> sendSeq c' = sendSeq c)"
proof (cases t)
  case (CallSend v s m)
  then show ?thesis using assms
    by (cases v; cases p) (auto simp: send_frame_def split: if_splits)
next
  case (CallWait v s)
  then show ?thesis using assms
    by (cases v; cases p) (auto simp: recv_result_def split: outcome.splits prod.splits)
qed (use assms in \<open>auto simp: Let_def removeSession_def split: if_splits option.splits outcome.splits\<close>)

lemma gstep_sendSeq:
  assumes "gstep K ev cfg = Done cfg'"
  shows "(if fst ev < length (snd cfg)
          then (case allocated (snd cfg ! fst ev) (snd cfg' ! fst ev) of
                  Some a \<Rightarrow> a = sendSeq (fst cfg) + 1 \<and> sendSeq (fst cfg') = sendSeq (fst cfg) + 1
                | None \<Rightarrow> sendSeq (fst cfg') = sendSeq (fst cfg))
          else sendSeq (fst cfg') = sendSeq (fst cfg))"
proof -
  obtain c ts where cfg: "cfg = (c, ts)" by (cases cfg)
  obtain i p where ev: "ev = (i, p)" by (cases ev)
  show ?thesis
  proof (cases "i < length ts")
    case False
    then have "cfg' = cfg" using assms cfg ev by (simp add: gstep_def)
    then show ?thesis using False cfg ev by (simp split: option.splits)
  next
    case True
    show ?thesis
    proof (cases "step K i p (ts ! i) c")
      case (Done x)
      obtain t' c' where x: "x = (t', c')" by (cases x)
      have cfg': "cfg' = (c', ts[i := t'])"
        using assms cfg ev True Done x by (simp add: gstep_def)
      from step_sendSeq [OF Done [unfolded x]] show ?thesis
        using cfg cfg' ev True by (simp split: option.splits)
    next
      case Blocked
      then have "cfg' = cfg" using assms cfg ev True by (simp add: gstep_def)
      moreover have "allocated (ts ! i) (ts ! i) = None"
        by (cases "ts ! i") simp_all
      ultimately show ?thesis using cfg ev True by (simp split: option.splits)
    next
      case Panicked
      then show ?thesis using assms cfg ev True by (simp add: gstep_def)
    qed
  qed
qed

lemma ids_increasing:
  "sint (sendSeq (fst cfg)) + int (length (ids K evs cfg)) \<le> 2 ^ 63 - 1 \<Longrightarrow>
   sorted_wrt (\<lambda>a b. sint a < sint b) (ids K evs cfg)
   \<and> (\<forall>a\<in>set (ids K evs cfg). sint (sendSeq (fst cfg)) < sint a)"
proof (induction evs arbitrary: cfg)
  case Nil
  then show ?case by simp
next
  case (Cons ev evs)
  show ?case
  proof (cases "gstep K ev cfg")
    case (Done cfg')
    note g = gstep_sendSeq [OF Done]
    show ?thesis
    proof (cases "fst ev < length (snd cfg)")
      case False
      then have same: "sendSeq (fst cfg') = sendSeq (fst cfg)" and i: "ids K (ev # evs) cfg = ids K evs cfg'"
        using g Done by simp_all
      from Cons.IH [of cfg'] Cons.prems same i show ?thesis by simp
    next
      case True
      show ?thesis
      proof (cases "allocated (snd cfg ! fst ev) (snd cfg' ! fst ev)")
        case None
        then have same: "sendSeq (fst cfg') = sendSeq (fst cfg)" and i: "ids K (ev # evs) cfg = ids K evs cfg'"
          using g Done True by simp_all
        from Cons.IH [of cfg'] Cons.prems same i show ?thesis by simp
      next
        case (Some a)
        then have a: "a = sendSeq (fst cfg) + 1" "sendSeq (fst cfg') = a"
          and i: "ids K (ev # evs) cfg = a # ids K evs cfg'"
          using g Done True by simp_all
        have bound: "sint (sendSeq (fst cfg)) + 1 + int (length (ids K evs cfg')) \<le> 2 ^ 63 - 1"
          using Cons.prems i by simp
        then have "sint (sendSeq (fst cfg)) < 2 ^ 63 - 1" by linarith
        then have sa: "sint a = sint (sendSeq (fst cfg)) + 1" using a(1) sint_succ by simp
        have "sint (sendSeq (fst cfg')) + int (length (ids K evs cfg')) \<le> 2 ^ 63 - 1"
          using bound sa a(2) by simp
        from Cons.IH [OF this]
        have "sorted_wrt (\<lambda>a b. sint a < sint b) (ids K evs cfg')"
          and "\<forall>b\<in>set (ids K evs cfg'). sint a < sint b"
          using a(2) by simp_all
        then show ?thesis using i sa by auto
      qed
    qed
  next
    case Blocked
    then show ?thesis by simp
  next
    case Panicked
    then show ?thesis by simp
  qed
qed

text \<open>
  Claim C1, as the code has it. The call that passes the test of \<open>running\<close> obtains the
  ID \<open>sendSeq + 1\<close>, computed in 64 bits, and leaves it in \<open>sendSeq\<close>. Along a run in which
  the counter does not pass \<open>2 ^ 63 - 1\<close>, the IDs obtained are strictly increasing as
  signed numbers, in the order in which they were obtained, all above the counter at the
  start, and so no two of them are equal.
\<close>

theorem correlation_ids_increase:
  assumes "sint (sendSeq c) + int (length (ids K evs (c, ts))) \<le> 2 ^ 63 - 1"
  shows "sorted_wrt (\<lambda>a b. sint a < sint b) (ids K evs (c, ts))
         \<and> distinct (ids K evs (c, ts))
         \<and> (\<forall>a\<in>set (ids K evs (c, ts)). sint (sendSeq c) < sint a)
         \<and> (running c2 \<longrightarrow>
              step K i p (CallCheck v cmd data) c2
                = Done (CallSend v \<lparr>seq = sendSeq c2 + 1, done_ch = length (heap c2)\<rparr>
                          (NewRpcMessage cmd (sendSeq c2 + 1) data),
                        c2\<lparr>sendSeq := sendSeq c2 + 1, heap := heap c2 @ [make_chan]\<rparr>))"
proof -
  have s: "sorted_wrt (\<lambda>a b. sint a < sint b) (ids K evs (c, ts))"
    and g: "\<forall>a\<in>set (ids K evs (c, ts)). sint (sendSeq c) < sint a"
    using ids_increasing [of "(c, ts)" K evs] assms by simp_all
  have "distinct (ids K evs (c, ts))"
    using s by (simp add: distinct_conv_nth sorted_wrt_iff_nth_less) (metis less_irrefl linorder_neqE_nat)
  with s g show ?thesis by (simp add: Let_def)
qed

text \<open>
  Claim C1 as stated fails at the end of the range of \<open>int64\<close>: two calls on a client
  whose counter is \<open>2 ^ 63 - 2\<close> obtain \<open>2 ^ 63 - 1\<close> and then \<open>- 2 ^ 63\<close>, which is
  less than the ID obtained before it.
\<close>

theorem correlation_ids_wrap_counterexample:
  "ids codes0 [(0, PickComm), (0, PickComm), (0, PickComm), (0, PickComm), (1, PickComm), (1, PickComm)]
       (near_max, [CallLock Plain 7 [1], CallLock Plain 7 [1]])
     = [0x7FFFFFFFFFFFFFFF, 0x8000000000000000]
   \<and> sint (0x8000000000000000 :: 64 word) < sint (0x7FFFFFFFFFFFFFFF :: 64 word)"
  by (simp add: eval_defs near_max_def)

theorem correlation_ids_increase_witness:
  "ids codes0 [(0, PickComm), (0, PickComm), (0, PickComm), (0, PickComm), (1, PickComm), (1, PickComm)]
       (client0, [CallLock Plain 7 [1], CallLock Plain 7 [1]]) = [2, 3]
   \<and> sint (1 :: 64 word) < sint (2 :: 64 word) \<and> sint (2 :: 64 word) < sint (3 :: 64 word)"
proof -
  have i: "ids codes0 [(0, PickComm), (0, PickComm), (0, PickComm), (0, PickComm), (1, PickComm), (1, PickComm)]
       (client0, [CallLock Plain 7 [1], CallLock Plain 7 [1]]) = [2, 3]"
    by (simp add: eval_defs)
  have s: "sendSeq client0 = 1" by (simp add: client0_def)
  have "sint (sendSeq client0) + int (length (ids codes0 [(0, PickComm), (0, PickComm), (0, PickComm), (0, PickComm), (1, PickComm), (1, PickComm)]
       (client0, [CallLock Plain 7 [1], CallLock Plain 7 [1]]))) \<le> 2 ^ 63 - 1"
    unfolding i s by simp
  from correlation_ids_increase [OF this, of client0 0 PickComm Plain 7 "[1]"]
  show ?thesis unfolding i s by simp
qed

end
